theory Spec2Isabelle
  imports Main
begin

section \<open>The RabbitMQ overview probe (overview.go)\<close>

text \<open>
  The probe parses two threshold strings, polls the management API of every configured
  host and prints one status line per counter. The embedding follows overview.go function
  by function. What the program does to the outside is kept in an explicit \<open>world\<close>:
  the lines written by \<open>fmt.Println\<close>, the errors written by \<open>log.Println\<close> and the
  HTTP requests sent by \<open>client.Do\<close>. Go's \<open>int\<close> is taken at 64 bits; the program
  only parses, compares and prints integers, so values are HOL integers and the width
  shows in the range check of \<open>Atoi\<close>.
\<close>

subsection \<open>Data\<close>

text \<open>The struct \<open>options\<close>, filled by the flag parser.\<close>

record options =
  Host :: string
  Port :: string
  Username :: string
  Password :: string
  Warning :: string
  Critical :: string
  Secure :: bool

text \<open>The structs \<open>QueueTotals\<close> and \<open>Overview\<close>.\<close>

record QueueTotals =
  MessagesUnack :: int
  MessagesReady :: int

record Overview =
  QueueTotals :: QueueTotals

text \<open>
  The errors the program handles. \<open>LimitsError\<close> is the value of
  \<open>errors.New("A list of two integers is required for limits.")\<close>; \<open>NumError\<close> is
  strconv's \<open>*NumError\<close> with the offending input and \<open>ErrSyntax\<close> or \<open>ErrRange\<close>;
  \<open>FlagsError\<close> is what \<open>flags.Parse\<close> returns; the others come from net/http,
  ioutil and encoding/json, with an opaque cause where the library gives one.
\<close>

datatype num_err = ErrSyntax | ErrRange

datatype error =
    FlagsError string
  | LimitsError
  | NumError string num_err
  | RequestError string
  | TransportError string
  | ReadError string
  | JsonSyntaxError
  | UnmarshalTypeError

text \<open>Run-time panics: a nil pointer dereference, an index out of range.\<close>

datatype panic = NilDereference | IndexOutOfRange nat nat

text \<open>An HTTP request as \<open>processHost\<close> builds it: a GET with basic authentication.\<close>

record request =
  uri :: string
  auth_user :: string
  auth_password :: string

text \<open>
  The observable effects: \<open>stdout\<close> holds the lines written by \<open>fmt.Println\<close>,
  \<open>logged\<close> the errors whose text \<open>log.Println\<close> wrote to the diagnostic stream,
  \<open>requests\<close> the requests handed to \<open>client.Do\<close>, each in order.
\<close>

record world =
  stdout :: "string list"
  logged :: "error list"
  requests :: "request list"

definition Println :: "string \<Rightarrow> world \<Rightarrow> world" where
  "Println line w = w\<lparr>stdout := stdout w @ [line]\<rparr>"

definition logPrintln :: "error \<Rightarrow> world \<Rightarrow> world" where
  "logPrintln err w = w\<lparr>logged := logged w @ [err]\<rparr>"

subsection \<open>strconv.Itoa\<close>

text \<open>
  The decimal rendering of an integer: a minus sign for a negative value, then the digits
  of the magnitude, most significant first, without leading zeros. \<open>digit_char\<close> is
  only applied to values below ten.
\<close>

definition digit_char :: "nat \<Rightarrow> char" where
  "digit_char d = ''0123456789'' ! d"

function digits :: "nat \<Rightarrow> string" where
  "digits n = (if n < 10 then [digit_char n] else digits (n div 10) @ [digit_char (n mod 10)])"
  by pat_completeness auto
termination
  by (relation "measure id") auto

declare digits.simps [simp del]

definition Itoa :: "int \<Rightarrow> string" where
  "Itoa i = (if i < 0 then CHR ''-'' # digits (nat (- i)) else digits (nat i))"

subsection \<open>strings.Split\<close>

text \<open>
  \<open>strings.Split(s, ",")\<close>, as the library's loop computes it: cut at the first
  separator, continue behind it, and end with the rest. The separator is the one-byte
  string \<open>","\<close> at both call sites. A string without separator gives the one-element
  slice of itself, the empty string included.
\<close>

function Split :: "string \<Rightarrow> char \<Rightarrow> string list" where
  "Split s sep =
     (case dropWhile (\<lambda>c. c \<noteq> sep) s of
        [] \<Rightarrow> [s]
      | _ # rest \<Rightarrow> takeWhile (\<lambda>c. c \<noteq> sep) s # Split rest sep)"
  by pat_completeness auto
termination
proof (relation "measure (\<lambda>(s, sep). length s)")
  show "wf (measure (\<lambda>(s, sep). length s))"
    by simp
next
  fix s :: string and sep x rest
  assume "dropWhile (\<lambda>c. c \<noteq> sep) s = x # rest"
  then have "Suc (length rest) = length (dropWhile (\<lambda>c. c \<noteq> sep) s)"
    by simp
  also have "\<dots> \<le> length s"
    by (rule length_dropWhile_le)
  finally show "((rest, sep), (s, sep)) \<in> measure (\<lambda>(s, sep). length s)"
    by simp
qed

declare Split.simps [simp del]

subsection \<open>strconv.Atoi\<close>

text \<open>
  The value of a decimal digit, \<open>None\<close> for any other byte.
\<close>

definition digit_val :: "char \<Rightarrow> nat option" where
  "digit_val c =
     map_of [(CHR ''0'', 0), (CHR ''1'', 1), (CHR ''2'', 2), (CHR ''3'', 3), (CHR ''4'', 4),
             (CHR ''5'', 5), (CHR ''6'', 6), (CHR ''7'', 7), (CHR ''8'', 8), (CHR ''9'', 9)] c"

definition maxUint64 :: nat where
  "maxUint64 = 2 ^ 64 - 1"

text \<open>
  The digit loop of \<open>strconv.ParseUint\<close> in base 10 at 64 bits: a byte that is no digit
  is a syntax error, a value beyond 64 bits a range error, whichever the scan meets
  first. \<open>n \<ge> cutoff\<close> is the library's test that \<open>n * 10\<close> overflows.
\<close>

fun parseDigits :: "nat \<Rightarrow> string \<Rightarrow> num_err + nat" where
  "parseDigits n [] = Inr n"
| "parseDigits n (c # cs) =
     (case digit_val c of
        None \<Rightarrow> Inl ErrSyntax
      | Some d \<Rightarrow>
          if n \<ge> maxUint64 div 10 + 1 then Inl ErrRange
          else let n1 = n * 10 + d in
               if n1 > maxUint64 then Inl ErrRange else parseDigits n1 cs)"

definition ParseUint :: "string \<Rightarrow> num_err + nat" where
  "ParseUint s = (if s = [] then Inl ErrSyntax else parseDigits 0 s)"

text \<open>
  \<open>strconv.ParseInt(s, 10, 64)\<close>: an optional sign, then \<open>ParseUint\<close>, then the range
  of a signed 64-bit integer.
\<close>

definition ParseInt :: "string \<Rightarrow> num_err + int" where
  "ParseInt s =
     (if s = [] then Inl ErrSyntax
      else
        let neg = (hd s = CHR ''-'');
            s1 = (if hd s = CHR ''+'' \<or> hd s = CHR ''-'' then tl s else s)
        in case ParseUint s1 of
             Inl e \<Rightarrow> Inl e
           | Inr un \<Rightarrow>
               if \<not> neg \<and> un \<ge> 2 ^ 63 then Inl ErrRange
               else if neg \<and> un > 2 ^ 63 then Inl ErrRange
               else Inr (if neg then - int un else int un))"

text \<open>
  \<open>strconv.Atoi\<close> wraps the failure in a \<open>*NumError\<close> that carries the input. Its fast
  path for short inputs computes the same results and is not modelled apart.
\<close>

definition Atoi :: "string \<Rightarrow> error + int" where
  "Atoi s = (case ParseInt s of Inl e \<Rightarrow> Inl (NumError s e) | Inr n \<Rightarrow> Inr n)"

subsection \<open>limitMap\<close>

text \<open>The loop of \<open>limitMap\<close> (lines 51 to 58) over the pieces, with the slice built so far.\<close>

fun limitLoop :: "string list \<Rightarrow> int list \<Rightarrow> world \<Rightarrow> (error + int list) \<times> world" where
  "limitLoop [] warning w = (Inr warning, w)"
| "limitLoop (value # rest) warning w =
     (case Atoi value of
        Inl err \<Rightarrow> (Inl err, logPrintln err w)
      | Inr tmpWarning \<Rightarrow> limitLoop rest (warning @ [tmpWarning]) w)"

definition limitMap :: "string \<Rightarrow> world \<Rightarrow> (error + int list) \<times> world" where
  "limitMap str w =
     (let warningLimits = Split str CHR '','' in
      if length warningLimits \<noteq> 2 then (Inl LimitsError, w)
      else limitLoop warningLimits [] w)"

subsection \<open>json.Unmarshal into the Overview\<close>

text \<open>
  A JSON value as the decoder scans it; a number keeps its literal text, which the
  decoder hands to \<open>strconv.ParseInt\<close>. An object is the sequence of its members in
  document order, duplicates included.
\<close>

datatype json =
    JNull
  | JBool bool
  | JNumber string
  | JString string
  | JArray "json list"
  | JObject "(string \<times> json) list"

text \<open>
  The decoder finds the struct field of a member by its name in the struct tag, exactly or
  under case folding. The tags here are ASCII, so a key matches under folding when its
  ASCII letters agree up to case, where the Kelvin sign (bytes E2 84 AA) stands for a
  \<open>k\<close> and the long s (bytes C5 BF) for an \<open>s\<close>.
\<close>

definition upper :: "char \<Rightarrow> char" where
  "upper c =
     (case map_of (zip ''abcdefghijklmnopqrstuvwxyz'' ''ABCDEFGHIJKLMNOPQRSTUVWXYZ'') c of
        None \<Rightarrow> c
      | Some u \<Rightarrow> u)"

fun foldName :: "string \<Rightarrow> string" where
  "foldName (a # b # c # cs) =
     (if a = CHR 0xE2 \<and> b = CHR 0x84 \<and> c = CHR 0xAA then CHR ''K'' # foldName cs
      else if a = CHR 0xC5 \<and> b = CHR 0xBF then CHR ''S'' # foldName (c # cs)
      else upper a # foldName (b # c # cs))"
| "foldName [a, b] =
     (if a = CHR 0xC5 \<and> b = CHR 0xBF then [CHR ''S''] else [upper a, upper b])"
| "foldName [a] = [upper a]"
| "foldName [] = []"

definition fieldMatches :: "string \<Rightarrow> string \<Rightarrow> bool" where
  "fieldMatches name key \<longleftrightarrow> key = name \<or> foldName key = foldName name"

text \<open>
  A member value stored into an \<open>int\<close> field: \<open>null\<close> leaves the field as it is
  (\<open>None\<close>), an integer literal in range sets it, anything else is an
  \<open>UnmarshalTypeError\<close>.
\<close>

fun decodeInt :: "json \<Rightarrow> error + int option" where
  "decodeInt JNull = Inr None"
| "decodeInt (JNumber lit) =
     (case ParseInt lit of Inl e \<Rightarrow> Inl UnmarshalTypeError | Inr n \<Rightarrow> Inr (Some n))"
| "decodeInt v = Inl UnmarshalTypeError"

text \<open>
  The members of an object stored into a \<open>QueueTotals\<close>, in document order: an unknown
  key is skipped, a later duplicate overwrites. The decoder records the first type error
  and returns it at the end; \<open>processHost\<close> drops the value then, so the model stops there.
\<close>

fun decodeQueueTotals :: "(string \<times> json) list \<Rightarrow> QueueTotals \<Rightarrow> error + QueueTotals" where
  "decodeQueueTotals [] qt = Inr qt"
| "decodeQueueTotals ((key, v) # rest) qt =
     (if fieldMatches ''messages_unacknowledged'' key then
        (case decodeInt v of
           Inl e \<Rightarrow> Inl e
         | Inr None \<Rightarrow> decodeQueueTotals rest qt
         | Inr (Some n) \<Rightarrow> decodeQueueTotals rest (qt\<lparr>MessagesUnack := n\<rparr>))
      else if fieldMatches ''messages_ready'' key then
        (case decodeInt v of
           Inl e \<Rightarrow> Inl e
         | Inr None \<Rightarrow> decodeQueueTotals rest qt
         | Inr (Some n) \<Rightarrow> decodeQueueTotals rest (qt\<lparr>MessagesReady := n\<rparr>))
      else decodeQueueTotals rest qt)"

text \<open>
  The members of the top-level object stored into an \<open>Overview\<close>. The field
  \<open>QueueTotals\<close> is a struct, not a pointer: \<open>null\<close> leaves it as it is, an object is
  decoded into it, anything else is an \<open>UnmarshalTypeError\<close>.
\<close>

fun decodeOverview :: "(string \<times> json) list \<Rightarrow> Overview \<Rightarrow> error + Overview" where
  "decodeOverview [] over = Inr over"
| "decodeOverview ((key, v) # rest) over =
     (if fieldMatches ''queue_totals'' key then
        (case v of
           JNull \<Rightarrow> decodeOverview rest over
         | JObject members \<Rightarrow>
             (case decodeQueueTotals members (QueueTotals over) of
                Inl e \<Rightarrow> Inl e
              | Inr qt \<Rightarrow> decodeOverview rest (over\<lparr>QueueTotals := qt\<rparr>))
         | _ \<Rightarrow> Inl UnmarshalTypeError)
      else decodeOverview rest over)"

text \<open>
  \<open>json.Unmarshal(body, &over)\<close> at line 91. \<open>over\<close> is itself a pointer, here
  \<open>Some\<close> of the struct it points to, so the target is a pointer to a pointer: the
  literal \<open>null\<close> sets \<open>over\<close> to nil without error; an object is decoded into the struct
  \<open>over\<close> points to; any other value is an \<open>UnmarshalTypeError\<close>. The body is \<open>None\<close>
  when it is not well-formed JSON, which the decoder checks before it stores anything.
\<close>

definition Unmarshal :: "json option \<Rightarrow> Overview \<Rightarrow> error + Overview option" where
  "Unmarshal body over =
     (case body of
        None \<Rightarrow> Inl JsonSyntaxError
      | Some JNull \<Rightarrow> Inr None
      | Some (JObject members) \<Rightarrow>
          (case decodeOverview members over of Inl e \<Rightarrow> Inl e | Inr ov \<Rightarrow> Inr (Some ov))
      | Some _ \<Rightarrow> Inl UnmarshalTypeError)"

subsection \<open>processHost\<close>

text \<open>
  What the network answers to \<open>client.Do\<close> and \<open>ioutil.ReadAll\<close>: the request fails,
  reading the body fails, or the body arrives.
\<close>

datatype reply = DoFailed string | ReadFailed string | Body "json option"

text \<open>
  The surroundings of a run: whether \<open>http.NewRequest\<close> rejects a URI (\<open>Some\<close> cause),
  and the reply to a request given the requests sent before it.
\<close>

record environment =
  newRequestFails :: "string \<Rightarrow> string option"
  roundTrip :: "request list \<Rightarrow> request \<Rightarrow> reply"

definition zeroOverview :: Overview where
  "zeroOverview = \<lparr>QueueTotals = \<lparr>MessagesUnack = 0, MessagesReady = 0\<rparr>\<rparr>"

definition processHost ::
  "environment \<Rightarrow> options \<Rightarrow> string \<Rightarrow> world \<Rightarrow> (error + Overview option) \<times> world" where
  "processHost env opt host w =
     (let prefix = (if Secure opt = True then ''https'' else ''http'');
          uri = prefix @ ''://'' @ host @ '':'' @ Port opt @ ''/api/overview''
      in case newRequestFails env uri of
           Some cause \<Rightarrow> (Inl (RequestError cause), w)
         | None \<Rightarrow>
             let request = \<lparr>uri = uri, auth_user = Username opt, auth_password = Password opt\<rparr>;
                 w1 = w\<lparr>requests := requests w @ [request]\<rparr>
             in case roundTrip env (requests w) request of
                  DoFailed cause \<Rightarrow> (Inl (TransportError cause), w1)
                | ReadFailed cause \<Rightarrow> (Inl (ReadError cause), w1)
                | Body body \<Rightarrow>
                    (case Unmarshal body zeroOverview of
                       Inl err \<Rightarrow> (Inl err, w1)
                     | Inr over \<Rightarrow> (Inr over, w1)))"

subsection \<open>processOverview\<close>

text \<open>Indexing a slice panics out of range.\<close>

definition index :: "int list \<Rightarrow> nat \<Rightarrow> panic + int" where
  "index xs i = (if i < length xs then Inr (xs ! i) else Inl (IndexOutOfRange i (length xs)))"

text \<open>
  The first if-chain of \<open>processOverview\<close> (lines 106 to 112): the line it prints, or the
  panic of the index expression it evaluates. \<open>warning[0]\<close> is only evaluated when the
  critical test fails.
\<close>

definition readyLine :: "Overview \<Rightarrow> int list \<Rightarrow> int list \<Rightarrow> panic + string" where
  "readyLine over warning critical =
     (let rdy = Itoa (MessagesReady (QueueTotals over)) in
      case index critical 0 of
        Inl p \<Rightarrow> Inl p
      | Inr c \<Rightarrow>
          if MessagesReady (QueueTotals over) \<ge> c
          then Inr (''CRITICAL '' @ rdy @ '' messages ready'')
          else (case index warning 0 of
                  Inl p \<Rightarrow> Inl p
                | Inr wl \<Rightarrow>
                    if MessagesReady (QueueTotals over) \<ge> wl
                    then Inr (''WARNING '' @ rdy @ '' messages ready'')
                    else Inr (''OK '' @ rdy @ '' messages ready'')))"

text \<open>The second if-chain (lines 114 to 120).\<close>

definition unackLine :: "Overview \<Rightarrow> int list \<Rightarrow> int list \<Rightarrow> panic + string" where
  "unackLine over warning critical =
     (let unack = Itoa (MessagesUnack (QueueTotals over)) in
      case index critical 1 of
        Inl p \<Rightarrow> Inl p
      | Inr c \<Rightarrow>
          if MessagesUnack (QueueTotals over) \<ge> c
          then Inr (''CRITICAL '' @ unack @ '' messages unacknowledged'')
          else (case index warning 1 of
                  Inl p \<Rightarrow> Inl p
                | Inr wl \<Rightarrow>
                    if MessagesUnack (QueueTotals over) \<ge> wl
                    then Inr (''WARNING '' @ unack @ '' messages unacknowledged'')
                    else Inr (''OK '' @ unack @ '' messages unacknowledged'')))"

text \<open>
  \<open>processOverview\<close> takes a pointer, \<open>None\<close> for nil: line 103 dereferences it before
  anything is printed. The two chains run in order, each printing its line; a panic
  stops the function with what was printed so far.
\<close>

definition processOverview ::
  "Overview option \<Rightarrow> int list \<Rightarrow> int list \<Rightarrow> world \<Rightarrow> (panic + unit) \<times> world" where
  "processOverview over warning critical w =
     (case over of
        None \<Rightarrow> (Inl NilDereference, w)
      | Some ov \<Rightarrow>
          (case readyLine ov warning critical of
             Inl p \<Rightarrow> (Inl p, w)
           | Inr l1 \<Rightarrow>
               let w1 = Println l1 w in
               (case unackLine ov warning critical of
                  Inl p \<Rightarrow> (Inl p, w1)
                | Inr l2 \<Rightarrow> (Inr (), Println l2 w1))))"

subsection \<open>main\<close>

text \<open>
  How a run ends: \<open>main\<close> returns after the last host, returns early on an error, or
  panics.
\<close>

datatype outcome = Completed | Failed error | Panicked panic

text \<open>The loop over the hosts (lines 145 to 152).\<close>

fun hostLoop ::
  "environment \<Rightarrow> options \<Rightarrow> int list \<Rightarrow> int list \<Rightarrow> string list \<Rightarrow> world \<Rightarrow> outcome \<times> world" where
  "hostLoop env opt warningLimits criticalLimits [] w = (Completed, w)"
| "hostLoop env opt warningLimits criticalLimits (value # rest) w =
     (case processHost env opt value w of
        (Inl err, w1) \<Rightarrow> (Failed err, logPrintln err w1)
      | (Inr over, w1) \<Rightarrow>
          (case processOverview over warningLimits criticalLimits w1 of
             (Inl p, w2) \<Rightarrow> (Panicked p, w2)
           | (Inr u, w2) \<Rightarrow> hostLoop env opt warningLimits criticalLimits rest w2))"

text \<open>
  \<open>main\<close>, given what \<open>flags.Parse\<close> made of the command line: its error, on which
  \<open>main\<close> returns without a word, or the filled options.
\<close>

definition main :: "environment \<Rightarrow> error + options \<Rightarrow> world \<Rightarrow> outcome \<times> world" where
  "main env parsed w =
     (case parsed of
        Inl err \<Rightarrow> (Failed err, w)
      | Inr opt \<Rightarrow>
          (case limitMap (Warning opt) w of
             (Inl err, w1) \<Rightarrow> (Failed err, logPrintln err w1)
           | (Inr warningLimits, w1) \<Rightarrow>
               (case limitMap (Critical opt) w1 of
                  (Inl err, w2) \<Rightarrow> (Failed err, logPrintln err w2)
                | (Inr criticalLimits, w2) \<Rightarrow>
                    let hosts = Split (Host opt) CHR '','' in
                    hostLoop env opt warningLimits criticalLimits hosts w2)))"

text \<open>A snapshot with the given counters, and the level words.\<close>

definition snapshot :: "int \<Rightarrow> int \<Rightarrow> Overview" where
  "snapshot ready unack =
     \<lparr>QueueTotals = \<lparr>MessagesUnack = unack, MessagesReady = ready\<rparr>\<rparr>"

definition levels :: "string list" where
  "levels = [''OK'', ''WARNING'', ''CRITICAL'']"

text \<open>
  The verdict the two if-chains compute for a counter \<open>v\<close> with warning limit \<open>wl\<close>
  and critical limit \<open>c\<close>; \<open>readyLine_pair\<close> and \<open>unackLine_pair\<close> below show that
  the code computes it.
\<close>

definition verdict :: "int \<Rightarrow> int \<Rightarrow> int \<Rightarrow> string" where
  "verdict v wl c = (if v \<ge> c then ''CRITICAL'' else if v \<ge> wl then ''WARNING'' else ''OK'')"

text \<open>The world before the program has done anything.\<close>

definition emptyWorld :: world where
  "emptyWorld = \<lparr>stdout = [], logged = [], requests = []\<rparr>"

text \<open>
  Concrete inputs for the runs evaluated below: the options with the defaults of the
  struct tags, and a network that accepts every URI and answers the requests in order
  from a list of replies, refusing the connection once the list is used up.
\<close>

definition defaultOptions :: options where
  "defaultOptions =
     \<lparr>Host = ''localhost'', Port = ''15672'', Username = ''guest'', Password = ''guest'',
      Warning = ''10000,10000'', Critical = ''50000,50000'', Secure = False\<rparr>"

definition scriptedNetwork :: "reply list \<Rightarrow> environment" where
  "scriptedNetwork replies =
     \<lparr>newRequestFails = (\<lambda>uri. None),
      roundTrip = (\<lambda>sent request.
        if length sent < length replies then replies ! length sent
        else DoFailed ''connection refused'')\<rparr>"

section \<open>The threshold evaluator\<close>

lemma verdict_levels: "verdict v wl c \<in> set levels"
  by (simp add: verdict_def levels_def)

lemma readyLine_pair:
  "readyLine (snapshot r u) [w0, w1] [c0, c1] =
     Inr (verdict r w0 c0 @ '' '' @ Itoa r @ '' messages ready'')"
  by (simp add: readyLine_def index_def snapshot_def verdict_def)

lemma unackLine_pair:
  "unackLine (snapshot r u) [w0, w1] [c0, c1] =
     Inr (verdict u w1 c1 @ '' '' @ Itoa u @ '' messages unacknowledged'')"
  by (simp add: unackLine_def index_def snapshot_def verdict_def)

lemma processOverview_pair:
  "processOverview (Some (snapshot r u)) [w0, w1] [c0, c1] w =
     (Inr (), w\<lparr>stdout := stdout w @
        [verdict r w0 c0 @ '' '' @ Itoa r @ '' messages ready'',
         verdict u w1 c1 @ '' '' @ Itoa u @ '' messages unacknowledged'']\<rparr>)"
  by (simp add: processOverview_def readyLine_pair unackLine_pair Println_def)

lemma snapshot_surj: "\<exists>r u. ov = snapshot r u"
proof -
  have "ov = snapshot (MessagesReady (QueueTotals ov)) (MessagesUnack (QueueTotals ov))"
    by (simp add: snapshot_def)
  then show ?thesis by blast
qed

text \<open>
  C1. For all counters \<open>r\<close>, \<open>u\<close> and all threshold pairs, the evaluator prints exactly
  two lines, one per counter and each with one level; a counter at or above its critical
  limit is reported CRITICAL, whatever the warning limit is (no relation between the
  warning and the critical limit is assumed).
\<close>

theorem critical_precedence:
  "\<exists>lr lu. lr \<in> set levels \<and> lu \<in> set levels \<and>
     processOverview (Some (snapshot r u)) [w0, w1] [c0, c1] w =
       (Inr (), w\<lparr>stdout := stdout w @
          [lr @ '' '' @ Itoa r @ '' messages ready'',
           lu @ '' '' @ Itoa u @ '' messages unacknowledged'']\<rparr>) \<and>
     (c0 \<le> r \<longrightarrow> lr = ''CRITICAL'') \<and> (c1 \<le> u \<longrightarrow> lu = ''CRITICAL'')"
proof -
  let ?lr = "verdict r w0 c0" and ?lu = "verdict u w1 c1"
  have "c0 \<le> r \<longrightarrow> ?lr = ''CRITICAL''" and "c1 \<le> u \<longrightarrow> ?lu = ''CRITICAL''"
    by (simp_all add: verdict_def)
  with verdict_levels [of r w0 c0] verdict_levels [of u w1 c1]
    processOverview_pair [of r u w0 w1 c0 c1 w]
  show ?thesis by blast
qed

text \<open>
  The ready counter 60000 with critical limit 50000 below the warning limit 70000, and
  the unacknowledged counter 50000 on its critical limit: both CRITICAL.
\<close>

theorem critical_precedence_witness:
  "(50000::int) \<le> 60000 \<and> (50000::int) \<le> 50000 \<and>
   processOverview (Some (snapshot 60000 50000)) [70000, 10000] [50000, 50000] emptyWorld =
     (Inr (), emptyWorld\<lparr>stdout :=
        [''CRITICAL 60000 messages ready'', ''CRITICAL 50000 messages unacknowledged'']\<rparr>)"
proof -
  have ready: "Itoa 60000 = ''60000''" and unack: "Itoa 50000 = ''50000''"
    by (simp_all add: Itoa_def digits.simps digit_char_def)
  from critical_precedence [of 60000 50000 70000 10000 50000 50000 emptyWorld]
  obtain lr lu where
    run: "processOverview (Some (snapshot 60000 50000)) [70000, 10000] [50000, 50000] emptyWorld =
       (Inr (), emptyWorld\<lparr>stdout := stdout emptyWorld @
          [lr @ '' '' @ Itoa 60000 @ '' messages ready'',
           lu @ '' '' @ Itoa 50000 @ '' messages unacknowledged'']\<rparr>)"
    and lr: "lr = ''CRITICAL''" and lu: "lu = ''CRITICAL''"
    by auto
  show ?thesis
    unfolding run lr lu ready unack by (simp add: emptyWorld_def)
qed

text \<open>
  C2. The limits are inclusive: a counter equal to its warning limit and below its
  critical limit is reported WARNING, a counter equal to its critical limit is reported
  CRITICAL, also where it reaches the warning limit as well.
\<close>

theorem inclusive_thresholds:
  "\<exists>lr lu.
     processOverview (Some (snapshot r u)) [w0, w1] [c0, c1] w =
       (Inr (), w\<lparr>stdout := stdout w @
          [lr @ '' '' @ Itoa r @ '' messages ready'',
           lu @ '' '' @ Itoa u @ '' messages unacknowledged'']\<rparr>) \<and>
     (r = w0 \<and> r < c0 \<longrightarrow> lr = ''WARNING'') \<and> (r = c0 \<longrightarrow> lr = ''CRITICAL'') \<and>
     (u = w1 \<and> u < c1 \<longrightarrow> lu = ''WARNING'') \<and> (u = c1 \<longrightarrow> lu = ''CRITICAL'')"
proof -
  let ?lr = "verdict r w0 c0" and ?lu = "verdict u w1 c1"
  have "r = w0 \<and> r < c0 \<longrightarrow> ?lr = ''WARNING''" and "r = c0 \<longrightarrow> ?lr = ''CRITICAL''"
    and "u = w1 \<and> u < c1 \<longrightarrow> ?lu = ''WARNING''" and "u = c1 \<longrightarrow> ?lu = ''CRITICAL''"
    by (simp_all add: verdict_def)
  with processOverview_pair [of r u w0 w1 c0 c1 w]
  show ?thesis by blast
qed

text \<open>
  The ready counter on its warning limit 10000, the unacknowledged counter on its
  critical limit 50000.
\<close>

theorem inclusive_thresholds_witness:
  "(10000::int) = 10000 \<and> (10000::int) < 50000 \<and> (50000::int) = 50000 \<and>
   processOverview (Some (snapshot 10000 50000)) [10000, 10000] [50000, 50000] emptyWorld =
     (Inr (), emptyWorld\<lparr>stdout :=
        [''WARNING 10000 messages ready'', ''CRITICAL 50000 messages unacknowledged'']\<rparr>)"
proof -
  have ready: "Itoa 10000 = ''10000''" and unack: "Itoa 50000 = ''50000''"
    by (simp_all add: Itoa_def digits.simps digit_char_def)
  from inclusive_thresholds [of 10000 50000 10000 10000 50000 50000 emptyWorld]
  obtain lr lu where
    run: "processOverview (Some (snapshot 10000 50000)) [10000, 10000] [50000, 50000] emptyWorld =
       (Inr (), emptyWorld\<lparr>stdout := stdout emptyWorld @
          [lr @ '' '' @ Itoa 10000 @ '' messages ready'',
           lu @ '' '' @ Itoa 50000 @ '' messages unacknowledged'']\<rparr>)"
    and lr: "lr = ''WARNING''" and lu: "lu = ''CRITICAL''"
    by auto
  show ?thesis
    unfolding run lr lu ready unack by (simp add: emptyWorld_def)
qed

subsection \<open>Itoa writes what Atoi reads\<close>

text \<open>
  The decimal rendering of \<open>Itoa\<close> is the one \<open>Atoi\<close> parses back to the same value,
  for every 64-bit integer.
\<close>

lemma digit_val_digit_char: "d < 10 \<Longrightarrow> digit_val (digit_char d) = Some d"
proof -
  assume "d < 10"
  then consider "d = 0" | "d = 1" | "d = 2" | "d = 3" | "d = 4"
    | "d = 5" | "d = 6" | "d = 7" | "d = 8" | "d = 9"
    by atomize_elim arith
  then show ?thesis
    by cases (simp_all add: digit_char_def digit_val_def)
qed

lemma digit_char_no_sign:
  "d < 10 \<Longrightarrow> digit_char d \<noteq> CHR ''+'' \<and> digit_char d \<noteq> CHR ''-''"
  using digit_val_digit_char [of d] by (auto simp: digit_val_def)

lemma parseDigits_snoc:
  "parseDigits a (xs @ [c]) =
     (case parseDigits a xs of Inl e \<Rightarrow> Inl e | Inr m \<Rightarrow> parseDigits m [c])"
  by (induction xs arbitrary: a) (auto simp: Let_def split: option.splits)

lemma parseDigits_step:
  assumes "m * 10 + d \<le> maxUint64" and "d < 10"
  shows "parseDigits m [digit_char d] = Inr (m * 10 + d)"
proof -
  from assms(1) have "m \<le> maxUint64 div 10"
    by (simp add: maxUint64_def)
  then have "\<not> maxUint64 div 10 + 1 \<le> m" by simp
  with assms show ?thesis
    by (simp add: digit_val_digit_char Let_def)
qed

lemma parseDigits_render: "n \<le> maxUint64 \<Longrightarrow> parseDigits 0 (digits n) = Inr n"
proof (induction n rule: digits.induct)
  case (1 n)
  show ?case
  proof (cases "n < 10")
    case True
    with "1.prems" parseDigits_step [of 0 n] show ?thesis
      by (subst digits.simps) simp
  next
    case False
    from "1.prems" have "n div 10 \<le> maxUint64" by simp
    with "1.IH" False have ih: "parseDigits 0 (digits (n div 10)) = Inr (n div 10)"
      by simp
    have "n div 10 * 10 + n mod 10 = n" by simp
    with "1.prems" parseDigits_step [of "n div 10" "n mod 10"]
    have "parseDigits (n div 10) [digit_char (n mod 10)] = Inr n"
      by simp
    with False ih show ?thesis
      by (subst digits.simps) (simp add: parseDigits_snoc)
  qed
qed

lemma digits_head: "digits n \<noteq> [] \<and> hd (digits n) \<noteq> CHR ''+'' \<and> hd (digits n) \<noteq> CHR ''-''"
proof (induction n rule: digits.induct)
  case (1 n)
  show ?case
  proof (cases "n < 10")
    case True
    with digit_char_no_sign [of n] show ?thesis
      by (subst (1 2 3) digits.simps) simp
  next
    case False
    with "1.IH" show ?thesis
      by (subst (1 2 3) digits.simps) simp
  qed
qed

lemma ParseUint_render: "n \<le> maxUint64 \<Longrightarrow> ParseUint (digits n) = Inr n"
  using digits_head [of n] by (simp add: ParseUint_def parseDigits_render)

lemma Atoi_Itoa:
  assumes "- (2 ^ 63) \<le> i" and "i < 2 ^ 63"
  shows "Atoi (Itoa i) = Inr i"
proof (cases "i < 0")
  case True
  let ?n = "nat (- i)"
  from assms True have n: "?n \<le> 2 ^ 63" "?n \<le> maxUint64"
    by (simp_all add: maxUint64_def nat_le_iff)
  have "ParseInt (CHR ''-'' # digits ?n) = Inr (- int ?n)"
    using n by (simp add: ParseInt_def ParseUint_render)
  with True show ?thesis
    by (simp add: Atoi_def Itoa_def)
next
  case False
  let ?n = "nat i"
  from assms False have n: "?n < 2 ^ 63" "?n \<le> maxUint64"
    by (simp_all add: maxUint64_def nat_less_iff nat_le_iff)
  have "ParseInt (digits ?n) = Inr (int ?n)"
    using n digits_head [of ?n] by (simp add: ParseInt_def ParseUint_render)
  with False show ?thesis
    by (simp add: Atoi_def Itoa_def)
qed

subsection \<open>The two lines\<close>

lemma readyLine_levels:
  "readyLine ov warning critical = Inr l \<Longrightarrow>
     \<exists>lr \<in> set levels. l = lr @ '' '' @ Itoa (MessagesReady (QueueTotals ov)) @ '' messages ready''"
  by (auto simp: readyLine_def levels_def Let_def split: sum.splits if_splits)

lemma unackLine_levels:
  "unackLine ov warning critical = Inr l \<Longrightarrow>
     \<exists>lu \<in> set levels. l = lu @ '' '' @ Itoa (MessagesUnack (QueueTotals ov)) @ '' messages unacknowledged''"
  by (auto simp: unackLine_def levels_def Let_def split: sum.splits if_splits)

text \<open>
  C6. Whenever the evaluator returns normally, the snapshot pointer was not nil and
  standard output has grown by exactly two lines: first the level, the decimal counter
  and \<open>messages ready\<close>, then the level, the decimal counter and
  \<open>messages unacknowledged\<close>, each level one of OK, WARNING, CRITICAL.
\<close>

theorem two_lines_per_snapshot:
  assumes "processOverview over warning critical w = (Inr (), w')"
  shows "\<exists>ov lr lu. over = Some ov \<and> lr \<in> set levels \<and> lu \<in> set levels \<and>
           w' = w\<lparr>stdout := stdout w @
             [lr @ '' '' @ Itoa (MessagesReady (QueueTotals ov)) @ '' messages ready'',
              lu @ '' '' @ Itoa (MessagesUnack (QueueTotals ov)) @ '' messages unacknowledged'']\<rparr>"
proof (cases over)
  case None
  with assms show ?thesis by (simp add: processOverview_def)
next
  case (Some ov)
  with assms obtain l1 l2 where l1: "readyLine ov warning critical = Inr l1"
    and l2: "unackLine ov warning critical = Inr l2"
    and w': "w' = Println l2 (Println l1 w)"
    by (auto simp: processOverview_def Let_def split: sum.splits)
  from readyLine_levels [OF l1] unackLine_levels [OF l2] w' Some
  show ?thesis by (auto simp: Println_def)
qed

text \<open>Ready 12000 and unacknowledged 3000 against (10000, 10000) and (50000, 50000).\<close>

theorem two_lines_per_snapshot_witness:
  "processOverview (Some (snapshot 12000 3000)) [10000, 10000] [50000, 50000] emptyWorld =
     (Inr (), emptyWorld\<lparr>stdout :=
        [''WARNING 12000 messages ready'', ''OK 3000 messages unacknowledged'']\<rparr>) \<and>
   (\<exists>lr lu. lr \<in> set levels \<and> lu \<in> set levels \<and>
      [''WARNING 12000 messages ready'', ''OK 3000 messages unacknowledged''] =
      [lr @ '' '' @ Itoa 12000 @ '' messages ready'',
       lu @ '' '' @ Itoa 3000 @ '' messages unacknowledged''])"
proof -
  have ready: "Itoa 12000 = ''12000''" and unack: "Itoa 3000 = ''3000''"
    by (simp_all add: Itoa_def digits.simps digit_char_def)
  have run: "processOverview (Some (snapshot 12000 3000)) [10000, 10000] [50000, 50000] emptyWorld =
     (Inr (), emptyWorld\<lparr>stdout :=
        [''WARNING 12000 messages ready'', ''OK 3000 messages unacknowledged'']\<rparr>)"
    by (simp add: processOverview_pair verdict_def ready unack emptyWorld_def)
  from two_lines_per_snapshot [OF run]
  show ?thesis
    unfolding run by (auto simp: snapshot_def emptyWorld_def)
qed

section \<open>The limit parser\<close>

subsection \<open>Splitting at the separator\<close>

lemma Split_no_sep: "sep \<notin> set s \<Longrightarrow> Split s sep = [s]"
proof -
  assume "sep \<notin> set s"
  then have dw: "dropWhile (\<lambda>c. c \<noteq> sep) s = []"
    by auto
  show ?thesis
    by (subst Split.simps) (simp add: dw)
qed

lemma Split_first: "sep \<notin> set a \<Longrightarrow> Split (a @ sep # b) sep = a # Split b sep"
proof -
  assume a: "sep \<notin> set a"
  then have "dropWhile (\<lambda>c. c \<noteq> sep) (a @ sep # b) = sep # b"
    by (subst dropWhile_append2) auto
  moreover from a have "takeWhile (\<lambda>c. c \<noteq> sep) (a @ sep # b) = a"
    by (subst takeWhile_append2) auto
  ultimately show ?thesis
    by (subst Split.simps) simp
qed

lemma Split_pair:
  "sep \<notin> set a \<Longrightarrow> sep \<notin> set b \<Longrightarrow> Split (a @ sep # b) sep = [a, b]"
  by (simp add: Split_first Split_no_sep)

lemma length_Split: "length (Split s sep) = Suc (count_list s sep)"
proof (induction s sep rule: Split.induct)
  case (1 s sep)
  show ?case
  proof (cases "dropWhile (\<lambda>c. c \<noteq> sep) s")
    case Nil
    then have "sep \<notin> set s" by auto
    then show ?thesis by (simp add: Split_no_sep)
  next
    case (Cons x rest)
    then have x: "x = sep"
      using hd_dropWhile [of "\<lambda>c. c \<noteq> sep" s] by simp
    let ?a = "takeWhile (\<lambda>c. c \<noteq> sep) s"
    have s: "s = ?a @ sep # rest"
      using takeWhile_dropWhile_id [of "\<lambda>c. c \<noteq> sep" s] Cons x by simp
    have a: "sep \<notin> set ?a"
      by (auto dest: set_takeWhileD)
    have "length (Split s sep) = Suc (length (Split rest sep))"
      by (subst s) (simp add: Split_first [OF a])
    also have "\<dots> = Suc (Suc (count_list rest sep))"
      using "1.IH" [OF Cons] by simp
    also have "count_list rest sep = count_list ?a sep + count_list rest sep"
      using a by simp
    also have "Suc (Suc \<dots>) = Suc (count_list (?a @ sep # rest) sep)"
      by simp
    also have "?a @ sep # rest = s"
      using s by simp
    finally show ?thesis .
  qed
qed

lemma one_sep_decomp:
  assumes "count_list s sep = 1"
  shows "\<exists>a b. s = a @ sep # b \<and> sep \<notin> set a \<and> sep \<notin> set b"
proof -
  from assms have "sep \<in> set s"
    by (metis count_list_0_iff zero_neq_one)
  then obtain a b where s: "s = a @ sep # b" and a: "sep \<notin> set a"
    by (auto dest: split_list_first)
  from assms s a have "count_list b sep = 0" by simp
  then have "sep \<notin> set b" by (simp add: count_list_0_iff)
  with s a show ?thesis by blast
qed

subsection \<open>What Atoi accepts\<close>

lemma parseDigits_digits:
  "parseDigits n s = Inr m \<Longrightarrow> c \<in> set s \<Longrightarrow> digit_val c \<noteq> None"
  by (induction s arbitrary: n) (auto simp: Let_def split: option.splits if_splits)

lemma ParseInt_no_comma: "ParseInt s = Inr n \<Longrightarrow> CHR '','' \<notin> set s"
proof
  assume ok: "ParseInt s = Inr n" and c: "CHR '','' \<in> set s"
  then have ne: "s \<noteq> []" by auto
  let ?s1 = "if hd s = CHR ''+'' \<or> hd s = CHR ''-'' then tl s else s"
  from ok ne obtain un where "ParseUint ?s1 = Inr un"
    by (auto simp: ParseInt_def Let_def split: sum.splits if_splits)
  then have pd: "parseDigits 0 ?s1 = Inr un"
    by (auto simp: ParseUint_def split: if_splits)
  from c ne have "CHR '','' \<in> set ?s1"
    by (cases s) auto
  from parseDigits_digits [OF pd this] show False
    by (simp add: digit_val_def)
qed

lemma Atoi_no_comma: "Atoi s = Inr n \<Longrightarrow> CHR '','' \<notin> set s"
  by (auto simp: Atoi_def split: sum.splits dest: ParseInt_no_comma)

lemma Atoi_error: "Atoi s = Inl e \<Longrightarrow> \<exists>k. e = NumError s k"
  by (auto simp: Atoi_def split: sum.splits)

subsection \<open>limitMap on every input\<close>

lemma limitMap_pair:
  "CHR '','' \<notin> set a \<Longrightarrow> CHR '','' \<notin> set b \<Longrightarrow>
   limitMap (a @ '','' @ b) w =
     (case Atoi a of
        Inl e \<Rightarrow> (Inl e, logPrintln e w)
      | Inr x \<Rightarrow> (case Atoi b of
                    Inl e \<Rightarrow> (Inl e, logPrintln e w)
                  | Inr y \<Rightarrow> (Inr [x, y], w)))"
  by (simp add: limitMap_def Split_pair split: sum.splits)

lemma limitMap_count:
  "count_list s CHR '','' \<noteq> 1 \<Longrightarrow> limitMap s w = (Inl LimitsError, w)"
  by (simp add: limitMap_def length_Split)

text \<open>
  C3. If \<open>Atoi\<close> accepts \<open>a\<close> and \<open>b\<close> with values \<open>x\<close> and \<open>y\<close>, then \<open>limitMap\<close>
  on \<open>a\<close>, a comma and \<open>b\<close> succeeds with the slice \<open>[x, y]\<close>, the first piece
  first, and leaves the world as it was.
\<close>

theorem limitMap_returns_pair:
  assumes "Atoi a = Inr x" and "Atoi b = Inr y"
  shows "limitMap (a @ '','' @ b) w = (Inr [x, y], w)"
  using assms limitMap_pair [of a b w] Atoi_no_comma [of a x] Atoi_no_comma [of b y]
  by simp

text \<open>The string \<open>10000,-7\<close>.\<close>

theorem limitMap_returns_pair_witness:
  "Atoi ''10000'' = Inr 10000 \<and> Atoi ''-7'' = Inr (- 7) \<and>
   limitMap ''10000,-7'' emptyWorld = (Inr [10000, - 7], emptyWorld)"
proof -
  have a: "Atoi ''10000'' = Inr 10000" and b: "Atoi ''-7'' = Inr (- 7)"
    by (simp_all add: Atoi_def ParseInt_def ParseUint_def digit_val_def maxUint64_def)
  from limitMap_returns_pair [OF a b, of emptyWorld] a b
  show ?thesis by simp
qed

text \<open>
  C4. A string whose number of commas is not one fails with \<open>LimitsError\<close> (the spec's
  MalformedLimits). A string with exactly one comma is \<open>a\<close>, the comma and \<open>b\<close> for
  the two pieces of \<open>Split\<close>; if \<open>Atoi\<close> rejects \<open>a\<close>, or accepts \<open>a\<close> and rejects
  \<open>b\<close>, then \<open>limitMap\<close> fails with that \<open>NumError\<close> (the spec's NonNumericLimit),
  which names the rejected piece. In each case the result is an error and no slice.
\<close>

theorem limitMap_failures:
  "(count_list s CHR '','' \<noteq> 1 \<longrightarrow> limitMap s w = (Inl LimitsError, w)) \<and>
   (count_list s CHR '','' = 1 \<longrightarrow>
      (\<exists>a b. s = a @ '','' @ b \<and> Split s CHR '','' = [a, b] \<and>
         (\<forall>e. Atoi a = Inl e \<longrightarrow>
            limitMap s w = (Inl e, logPrintln e w) \<and> (\<exists>k. e = NumError a k)) \<and>
         (\<forall>x e. Atoi a = Inr x \<and> Atoi b = Inl e \<longrightarrow>
            limitMap s w = (Inl e, logPrintln e w) \<and> (\<exists>k. e = NumError b k))))"
proof (intro conjI impI)
  assume "count_list s CHR '','' \<noteq> 1"
  then show "limitMap s w = (Inl LimitsError, w)"
    by (rule limitMap_count)
next
  assume "count_list s CHR '','' = 1"
  from one_sep_decomp [OF this] obtain a b
    where s: "s = a @ '','' @ b" and a: "CHR '','' \<notin> set a" and b: "CHR '','' \<notin> set b"
    by auto
  have split: "Split s CHR '','' = [a, b]"
    using a b by (simp add: s Split_pair)
  have first: "limitMap s w = (Inl e, logPrintln e w) \<and> (\<exists>k. e = NumError a k)"
    if "Atoi a = Inl e" for e
    using that limitMap_pair [OF a b, of w] Atoi_error [of a e] by (simp add: s)
  have second: "limitMap s w = (Inl e, logPrintln e w) \<and> (\<exists>k. e = NumError b k)"
    if "Atoi a = Inr x \<and> Atoi b = Inl e" for x e
    using that limitMap_pair [OF a b, of w] Atoi_error [of b e] by (simp add: s)
  from s split first second
  show "\<exists>a b. s = a @ '','' @ b \<and> Split s CHR '','' = [a, b] \<and>
         (\<forall>e. Atoi a = Inl e \<longrightarrow>
            limitMap s w = (Inl e, logPrintln e w) \<and> (\<exists>k. e = NumError a k)) \<and>
         (\<forall>x e. Atoi a = Inr x \<and> Atoi b = Inl e \<longrightarrow>
            limitMap s w = (Inl e, logPrintln e w) \<and> (\<exists>k. e = NumError b k))"
    by blast
qed

text \<open>
  No comma, two commas, a second piece that is no number, and an empty first piece.
\<close>

theorem limitMap_failures_witness:
  "count_list ''10000'' CHR '','' \<noteq> 1 \<and>
   limitMap ''10000'' emptyWorld = (Inl LimitsError, emptyWorld) \<and>
   count_list ''1,2,3'' CHR '','' \<noteq> 1 \<and>
   limitMap ''1,2,3'' emptyWorld = (Inl LimitsError, emptyWorld) \<and>
   count_list ''10000,x'' CHR '','' = 1 \<and>
   Atoi ''10000'' = Inr 10000 \<and> Atoi ''x'' = Inl (NumError ''x'' ErrSyntax) \<and>
   limitMap ''10000,x'' emptyWorld =
     (Inl (NumError ''x'' ErrSyntax), logPrintln (NumError ''x'' ErrSyntax) emptyWorld) \<and>
   count_list '',5'' CHR '','' = 1 \<and>
   Atoi [] = Inl (NumError [] ErrSyntax) \<and>
   limitMap '',5'' emptyWorld =
     (Inl (NumError [] ErrSyntax), logPrintln (NumError [] ErrSyntax) emptyWorld)"
proof -
  have one: "limitMap ''10000'' emptyWorld = (Inl LimitsError, emptyWorld)"
    using limitMap_failures [of "''10000''" emptyWorld] by simp
  have three: "limitMap ''1,2,3'' emptyWorld = (Inl LimitsError, emptyWorld)"
    using limitMap_failures [of "''1,2,3''" emptyWorld] by simp
  have a: "Atoi ''10000'' = Inr 10000" and b: "Atoi ''x'' = Inl (NumError ''x'' ErrSyntax)"
    and c: "Atoi [] = Inl (NumError [] ErrSyntax)"
    by (simp_all add: Atoi_def ParseInt_def ParseUint_def digit_val_def maxUint64_def)
  have sp: "Split ''10000,x'' CHR '','' = [''10000'', ''x'']"
    and sp': "Split '',5'' CHR '','' = [[], ''5'']"
    by (simp_all add: Split.simps)
  have second: "limitMap ''10000,x'' emptyWorld =
     (Inl (NumError ''x'' ErrSyntax), logPrintln (NumError ''x'' ErrSyntax) emptyWorld)"
    using limitMap_failures [of "''10000,x''" emptyWorld] a b unfolding sp by auto
  have first: "limitMap '',5'' emptyWorld =
     (Inl (NumError [] ErrSyntax), logPrintln (NumError [] ErrSyntax) emptyWorld)"
    using limitMap_failures [of "'',5''" emptyWorld] c unfolding sp' by auto
  from one three a b c first second show ?thesis
    by simp
qed

subsection \<open>The effects of limitMap\<close>

lemma limitLoop_effects:
  "snd (limitLoop pieces acc w) =
     (case fst (limitLoop pieces acc w) of
        Inl (NumError p k) \<Rightarrow> w\<lparr>logged := logged w @ [NumError p k]\<rparr>
      | _ \<Rightarrow> w)"
proof (induction pieces arbitrary: acc)
  case Nil
  show ?case by simp
next
  case (Cons piece pieces)
  show ?case
  proof (cases "Atoi piece")
    case (Inl e)
    with Atoi_error [OF Inl] show ?thesis by (auto simp: logPrintln_def)
  next
    case (Inr n)
    with Cons.IH [of "acc @ [n]"] show ?thesis by simp
  qed
qed

text \<open>
  C9 as stated fails: on \<open>10000,x\<close> the parser writes the \<open>Atoi\<close> error to the log
  (line 54) before it returns it, so the world after the call is not the world before.
\<close>

theorem limitMap_pure_counterexample:
  "limitMap ''10000,x'' emptyWorld =
     (Inl (NumError ''x'' ErrSyntax), emptyWorld\<lparr>logged := [NumError ''x'' ErrSyntax]\<rparr>) \<and>
   snd (limitMap ''10000,x'' emptyWorld) \<noteq> emptyWorld"
  by (simp add: limitMap_def Split.simps Atoi_def ParseInt_def ParseUint_def digit_val_def
      maxUint64_def logPrintln_def emptyWorld_def)

text \<open>
  C9, amended. \<open>limitMap\<close> writes nothing to standard output and sends no request. When
  it succeeds, and when it fails on the number of pieces, it changes nothing at all; when
  it fails because \<open>Atoi\<close> rejects a piece, its one effect is to append that error to
  the log.
\<close>

theorem limitMap_effects:
  "stdout (snd (limitMap s w)) = stdout w \<and> requests (snd (limitMap s w)) = requests w \<and>
   snd (limitMap s w) =
     (case fst (limitMap s w) of
        Inl (NumError p k) \<Rightarrow> w\<lparr>logged := logged w @ [NumError p k]\<rparr>
      | _ \<Rightarrow> w)"
proof -
  have eff: "snd (limitMap s w) =
     (case fst (limitMap s w) of
        Inl (NumError p k) \<Rightarrow> w\<lparr>logged := logged w @ [NumError p k]\<rparr>
      | _ \<Rightarrow> w)"
    using limitLoop_effects [of "Split s CHR '',''" "[]" w]
    by (simp add: limitMap_def logPrintln_def Let_def)
  then have "stdout (snd (limitMap s w)) = stdout w"
    and "requests (snd (limitMap s w)) = requests w"
    by (simp_all split: sum.splits error.splits)
  with eff show ?thesis by blast
qed

subsection \<open>The limits as index bounds\<close>

lemma limitLoop_length:
  "limitLoop pieces acc w = (Inr xs, w') \<Longrightarrow> length xs = length acc + length pieces"
  by (induction pieces arbitrary: acc) (auto split: sum.splits)

lemma limitMap_length: "limitMap s w = (Inr xs, w') \<Longrightarrow> length xs = 2"
  by (auto simp: limitMap_def Let_def split: if_splits dest: limitLoop_length)

lemma processOverview_in_bounds:
  assumes "length warning = 2" and "length critical = 2"
  shows "fst (processOverview over warning critical st) =
           (case over of None \<Rightarrow> Inl NilDereference | Some ov \<Rightarrow> Inr ())"
proof (cases over)
  case None
  then show ?thesis by (simp add: processOverview_def)
next
  case (Some ov)
  from assms obtain w0 w1 c0 c1 where "warning = [w0, w1]" and "critical = [c0, c1]"
    by (auto simp: length_Suc_conv numeral_2_eq_2)
  moreover obtain r u where "ov = snapshot r u"
    using snapshot_surj by blast
  ultimately show ?thesis
    using Some by (simp add: processOverview_pair)
qed

text \<open>
  C10. A slice returned by \<open>limitMap\<close> has exactly two elements. Hence, with both
  limits parsed, \<open>processOverview\<close> never panics on an index, whatever pointer and world
  it is given, and returns normally on every snapshot.
\<close>

theorem limits_in_bounds:
  "(limitMap a w = (Inr warning, w1) \<longrightarrow> length warning = 2) \<and>
   (limitMap a w = (Inr warning, w1) \<and> limitMap b w1 = (Inr critical, w2) \<longrightarrow>
      (\<forall>over st i n. fst (processOverview over warning critical st) \<noteq> Inl (IndexOutOfRange i n)) \<and>
      (\<forall>ov st. fst (processOverview (Some ov) warning critical st) = Inr ()))"
proof (intro conjI impI)
  assume "limitMap a w = (Inr warning, w1)"
  then show "length warning = 2" by (rule limitMap_length)
next
  assume "limitMap a w = (Inr warning, w1) \<and> limitMap b w1 = (Inr critical, w2)"
  then have len: "length warning = 2" "length critical = 2"
    by (auto dest: limitMap_length)
  show "\<forall>over st i n. fst (processOverview over warning critical st) \<noteq> Inl (IndexOutOfRange i n)"
    by (simp add: processOverview_in_bounds [OF len] split: option.splits)
  show "\<forall>ov st. fst (processOverview (Some ov) warning critical st) = Inr ()"
    by (simp add: processOverview_in_bounds [OF len])
qed

text \<open>The default limits \<open>10000,10000\<close> and \<open>50000,50000\<close>.\<close>

theorem limits_in_bounds_witness:
  "limitMap ''10000,10000'' emptyWorld = (Inr [10000, 10000], emptyWorld) \<and>
   limitMap ''50000,50000'' emptyWorld = (Inr [50000, 50000], emptyWorld) \<and>
   length [10000, 10000 :: int] = 2 \<and>
   fst (processOverview (Some (snapshot 60000 3000)) [10000, 10000] [50000, 50000] emptyWorld)
     = Inr ()"
proof -
  have w: "limitMap ''10000,10000'' emptyWorld = (Inr [10000, 10000], emptyWorld)"
    and c: "limitMap ''50000,50000'' emptyWorld = (Inr [50000, 50000], emptyWorld)"
    by (simp_all add: limitMap_def Split.simps Atoi_def ParseInt_def ParseUint_def digit_val_def
        maxUint64_def)
  from limits_in_bounds [of "''10000,10000''" emptyWorld "[10000, 10000]" emptyWorld
      "''50000,50000''" "[50000, 50000]" emptyWorld] w c
  show ?thesis by simp
qed

section \<open>The run controller\<close>

lemma limitLoop_result_world:
  "fst (limitLoop pieces acc w) = fst (limitLoop pieces acc w')"
  by (induction pieces arbitrary: acc) (auto split: sum.splits)

lemma limitMap_result_world: "fst (limitMap s w) = fst (limitMap s w')"
  using limitLoop_result_world [of "Split s CHR '',''" "[]" w w']
  by (simp add: limitMap_def Let_def)

lemma limitLoop_Inr_world: "limitLoop pieces acc w = (Inr xs, w') \<Longrightarrow> w' = w"
  by (induction pieces arbitrary: acc) (auto split: sum.splits)

lemma limitMap_Inr_world: "limitMap s w = (Inr xs, w') \<Longrightarrow> w' = w"
  by (auto simp: limitMap_def Let_def split: if_splits dest: limitLoop_Inr_world)

lemma limitMap_Inl_world:
  "limitMap s w = (Inl e, w') \<Longrightarrow> stdout w' = stdout w \<and> requests w' = requests w"
  using limitLoop_effects [of "Split s CHR '',''" "[]" w]
  by (auto simp: limitMap_def Let_def split: if_splits error.splits)

lemma logPrintln_frame [simp]:
  "stdout (logPrintln e w) = stdout w" "requests (logPrintln e w) = requests w"
  by (simp_all add: logPrintln_def)

text \<open>
  C7. If \<open>limitMap\<close> fails on the warning string or on the critical string, \<open>main\<close>
  returns with that failure, whatever the network would answer: the requests sent and
  the lines on standard output are those from before the run.
\<close>

theorem parse_failure_before_hosts:
  assumes "isl (fst (limitMap (Warning opt) w)) \<or> isl (fst (limitMap (Critical opt) w))"
  shows "requests (snd (main env (Inr opt) w)) = requests w \<and>
         stdout (snd (main env (Inr opt) w)) = stdout w \<and>
         (\<exists>e. fst (main env (Inr opt) w) = Failed e)"
proof (cases "limitMap (Warning opt) w")
  case (Pair r1 w1)
  show ?thesis
  proof (cases r1)
    case (Inl e)
    with Pair limitMap_Inl_world [of "Warning opt" w e w1] show ?thesis
      by (simp add: main_def)
  next
    case (Inr warningLimits)
    with Pair have w1: "w1 = w"
      by (auto dest: limitMap_Inr_world)
    from Inr Pair assms have "isl (fst (limitMap (Critical opt) w))"
      by simp
    then obtain e w2 where crit: "limitMap (Critical opt) w = (Inl e, w2)"
      by (cases "limitMap (Critical opt) w") (auto simp: isl_def)
    with Pair Inr w1 limitMap_Inl_world [OF crit] show ?thesis
      by (simp add: main_def)
  qed
qed

text \<open>The warning string \<open>10000\<close>, with one field only.\<close>

theorem parse_failure_before_hosts_witness:
  "isl (fst (limitMap (Warning (defaultOptions\<lparr>Warning := ''10000''\<rparr>)) emptyWorld)) \<and>
   requests (snd (main (scriptedNetwork []) (Inr (defaultOptions\<lparr>Warning := ''10000''\<rparr>))
     emptyWorld)) = [] \<and>
   stdout (snd (main (scriptedNetwork []) (Inr (defaultOptions\<lparr>Warning := ''10000''\<rparr>))
     emptyWorld)) = []"
proof -
  have fails: "limitMap ''10000'' emptyWorld = (Inl LimitsError, emptyWorld)"
    by (simp add: limitMap_def Split.simps)
  then have hyp: "isl (fst (limitMap (Warning (defaultOptions\<lparr>Warning := ''10000''\<rparr>)) emptyWorld))"
    by simp
  then have "isl (fst (limitMap (Warning (defaultOptions\<lparr>Warning := ''10000''\<rparr>)) emptyWorld))
      \<or> isl (fst (limitMap (Critical (defaultOptions\<lparr>Warning := ''10000''\<rparr>)) emptyWorld))"
    by (rule disjI1)
  from parse_failure_before_hosts [OF this, of "scriptedNetwork []"] hyp
  show ?thesis by (simp add: emptyWorld_def)
qed

subsection \<open>The first failing host\<close>

lemma processHost_failure:
  "processHost env opt h w = (Inl err, w') \<Longrightarrow>
     stdout w' = stdout w \<and> logged w' = logged w \<and>
     (requests w' = requests w \<or> (\<exists>req. requests w' = requests w @ [req]))"
  by (auto simp: processHost_def Let_def split: option.splits reply.splits sum.splits)

lemma hostLoop_first_failure:
  assumes "hostLoop env opt wl cl pre w = (Completed, w1)"
    and "processHost env opt h w1 = (Inl err, w2)"
  shows "hostLoop env opt wl cl (pre @ h # post) w = (Failed err, logPrintln err w2)"
  using assms(1)
proof (induction pre arbitrary: w)
  case Nil
  with assms(2) show ?case by simp
next
  case (Cons x pre)
  then show ?case
    by (auto split: prod.splits sum.splits)
qed

text \<open>
  C5. Let both limits parse and let the host list be \<open>pre\<close>, then \<open>h\<close>, then \<open>post\<close>.
  If the loop completes on \<open>pre\<close> in the world \<open>w1\<close> and \<open>processHost\<close> fails on \<open>h\<close>
  there, leaving \<open>w2\<close>, then \<open>main\<close> returns with that failure in the world \<open>w2\<close> plus
  the logged error, whatever \<open>post\<close> is: standard output is what the hosts of \<open>pre\<close>
  produced, and beyond their requests at most the one for \<open>h\<close> was sent.
\<close>

theorem first_failure_stops_run:
  assumes "limitMap (Warning opt) w = (Inr wl, w)"
    and "limitMap (Critical opt) w = (Inr cl, w)"
    and "Split (Host opt) CHR '','' = pre @ h # post"
    and "hostLoop env opt wl cl pre w = (Completed, w1)"
    and "processHost env opt h w1 = (Inl err, w2)"
  shows "main env (Inr opt) w = (Failed err, logPrintln err w2) \<and>
         stdout w2 = stdout w1 \<and>
         (requests w2 = requests w1 \<or> (\<exists>req. requests w2 = requests w1 @ [req]))"
proof -
  have "main env (Inr opt) w = hostLoop env opt wl cl (pre @ h # post) w"
    using assms(1-3) by (simp add: main_def)
  also have "\<dots> = (Failed err, logPrintln err w2)"
    using assms(4,5) by (rule hostLoop_first_failure)
  finally show ?thesis
    using processHost_failure [OF assms(5)] by simp
qed

text \<open>
  Hosts \<open>a,b,c\<close>: \<open>a\<close> answers with 12000 ready and 3000 unacknowledged messages, the
  request to \<open>b\<close> times out, \<open>c\<close> is never asked.
\<close>

theorem first_failure_stops_run_witness:
  "main (scriptedNetwork
       [Body (Some (JObject [(''queue_totals'',
          JObject [(''messages_ready'', JNumber ''12000''),
                   (''messages_unacknowledged'', JNumber ''3000'')])])),
        DoFailed ''timeout''])
     (Inr (defaultOptions\<lparr>Host := ''a,b,c''\<rparr>)) emptyWorld =
   (Failed (TransportError ''timeout''),
    \<lparr>stdout = [''WARNING 12000 messages ready'', ''OK 3000 messages unacknowledged''],
     logged = [TransportError ''timeout''],
     requests =
       [\<lparr>uri = ''http://a:15672/api/overview'', auth_user = ''guest'', auth_password = ''guest''\<rparr>,
        \<lparr>uri = ''http://b:15672/api/overview'', auth_user = ''guest'', auth_password = ''guest''\<rparr>]\<rparr>)"
proof -
  let ?body = "JObject [(''queue_totals'',
          JObject [(''messages_ready'', JNumber ''12000''),
                   (''messages_unacknowledged'', JNumber ''3000'')])]"
  let ?env = "scriptedNetwork [Body (Some ?body), DoFailed ''timeout'']"
  let ?opt = "defaultOptions\<lparr>Host := ''a,b,c''\<rparr>"
  let ?ra = "\<lparr>uri = ''http://a:15672/api/overview'', auth_user = ''guest'', auth_password = ''guest''\<rparr>"
  let ?rb = "\<lparr>uri = ''http://b:15672/api/overview'', auth_user = ''guest'', auth_password = ''guest''\<rparr>"
  let ?w1 = "\<lparr>stdout = [''WARNING 12000 messages ready'', ''OK 3000 messages unacknowledged''],
     logged = [], requests = [?ra]\<rparr>"
  let ?w2 = "?w1\<lparr>requests := [?ra, ?rb]\<rparr>"
  have warn: "limitMap (Warning ?opt) emptyWorld = (Inr [10000, 10000], emptyWorld)"
    and crit: "limitMap (Critical ?opt) emptyWorld = (Inr [50000, 50000], emptyWorld)"
    by (simp_all add: defaultOptions_def limitMap_def Split.simps Atoi_def ParseInt_def
        ParseUint_def digit_val_def maxUint64_def)
  have hosts: "Split (Host ?opt) CHR '','' = [''a''] @ ''b'' # [''c'']"
    by (simp add: Split.simps)
  have body: "Unmarshal (Some ?body) zeroOverview = Inr (Some (snapshot 12000 3000))"
    by (simp add: Unmarshal_def fieldMatches_def upper_def ParseInt_def ParseUint_def
        digit_val_def maxUint64_def zeroOverview_def snapshot_def)
  have fetch: "processHost ?env ?opt ''a'' emptyWorld =
      (Inr (Some (snapshot 12000 3000)), emptyWorld\<lparr>requests := [?ra]\<rparr>)"
    by (simp add: processHost_def scriptedNetwork_def defaultOptions_def emptyWorld_def body)
  have ready: "Itoa 12000 = ''12000''" and unack: "Itoa 3000 = ''3000''"
    by (simp_all add: Itoa_def digits.simps digit_char_def)
  have before: "hostLoop ?env ?opt [10000, 10000] [50000, 50000] [''a''] emptyWorld =
      (Completed, ?w1)"
    by (simp add: fetch processOverview_pair verdict_def ready unack) (simp add: emptyWorld_def)
  have failing: "processHost ?env ?opt ''b'' ?w1 = (Inl (TransportError ''timeout''), ?w2)"
    by (simp add: processHost_def scriptedNetwork_def defaultOptions_def)
  from first_failure_stops_run [OF warn crit hosts before failing]
  show ?thesis by (simp add: logPrintln_def)
qed

section \<open>The host fetcher\<close>

subsection \<open>Fields missing from an object\<close>

text \<open>
  A counter that no member of the body names keeps the value it had before decoding,
  which is zero for the fresh \<open>Overview\<close> of \<open>processHost\<close>. A member \<open>queue_totals\<close>
  that is \<open>null\<close> counts as naming nothing.
\<close>

lemma decodeQueueTotals_ready_missing:
  "decodeQueueTotals ms qt = Inr qt' \<Longrightarrow>
   \<forall>(k, v) \<in> set ms. \<not> fieldMatches ''messages_ready'' k \<Longrightarrow>
   MessagesReady qt' = MessagesReady qt"
proof (induction ms arbitrary: qt)
  case Nil
  then show ?case by simp
next
  case (Cons m ms)
  obtain k v where m: "m = (k, v)" by (cases m)
  from Cons.prems m have rest: "\<forall>(k, v) \<in> set ms. \<not> fieldMatches ''messages_ready'' k"
    and k: "\<not> fieldMatches ''messages_ready'' k"
    by auto
  from Cons.prems(1) m k obtain qt1 where "decodeQueueTotals ms qt1 = Inr qt'"
    and "MessagesReady qt1 = MessagesReady qt"
    by (auto split: if_splits sum.splits option.splits)
  with Cons.IH [OF _ rest] show ?case by simp
qed

lemma decodeQueueTotals_unack_missing:
  "decodeQueueTotals ms qt = Inr qt' \<Longrightarrow>
   \<forall>(k, v) \<in> set ms. \<not> fieldMatches ''messages_unacknowledged'' k \<Longrightarrow>
   MessagesUnack qt' = MessagesUnack qt"
proof (induction ms arbitrary: qt)
  case Nil
  then show ?case by simp
next
  case (Cons m ms)
  obtain k v where m: "m = (k, v)" by (cases m)
  from Cons.prems m have rest: "\<forall>(k, v) \<in> set ms. \<not> fieldMatches ''messages_unacknowledged'' k"
    and k: "\<not> fieldMatches ''messages_unacknowledged'' k"
    by auto
  from Cons.prems(1) m k obtain qt1 where "decodeQueueTotals ms qt1 = Inr qt'"
    and "MessagesUnack qt1 = MessagesUnack qt"
    by (auto split: if_splits sum.splits option.splits)
  with Cons.IH [OF _ rest] show ?case by simp
qed

lemma decodeOverview_field_missing:
  assumes "decodeOverview ms ov = Inr ov'"
    and "\<forall>(k, v) \<in> set ms. fieldMatches ''queue_totals'' k \<longrightarrow>
           (\<forall>fs. v = JObject fs \<longrightarrow> (\<forall>(k', v') \<in> set fs. \<not> fieldMatches name k'))"
  shows "(name = ''messages_ready'' \<longrightarrow>
            MessagesReady (QueueTotals ov') = MessagesReady (QueueTotals ov)) \<and>
         (name = ''messages_unacknowledged'' \<longrightarrow>
            MessagesUnack (QueueTotals ov') = MessagesUnack (QueueTotals ov))"
  using assms
proof (induction ms arbitrary: ov)
  case Nil
  then show ?case by simp
next
  case (Cons m ms)
  obtain k v where m: "m = (k, v)" by (cases m)
  from Cons.prems(2) have rest: "\<forall>(k, v) \<in> set ms. fieldMatches ''queue_totals'' k \<longrightarrow>
           (\<forall>fs. v = JObject fs \<longrightarrow> (\<forall>(k', v') \<in> set fs. \<not> fieldMatches name k'))"
    by simp
  show ?case
  proof (cases "fieldMatches ''queue_totals'' k")
    case False
    with Cons.prems(1) m have "decodeOverview ms ov = Inr ov'" by simp
    from Cons.IH [OF this rest] show ?thesis .
  next
    case True
    show ?thesis
    proof (cases v)
      case JNull
      with Cons.prems(1) m True have "decodeOverview ms ov = Inr ov'" by simp
      from Cons.IH [OF this rest] show ?thesis .
    next
      case (JObject fs)
      with Cons.prems(1) m True obtain qt
        where qt: "decodeQueueTotals fs (QueueTotals ov) = Inr qt"
          and dec: "decodeOverview ms (ov\<lparr>QueueTotals := qt\<rparr>) = Inr ov'"
        by (auto split: sum.splits)
      from Cons.prems(2) m True JObject
      have none: "\<forall>(k', v') \<in> set fs. \<not> fieldMatches name k'"
        by simp
      have "name = ''messages_ready'' \<longrightarrow> MessagesReady qt = MessagesReady (QueueTotals ov)"
        using decodeQueueTotals_ready_missing [OF qt] none by blast
      moreover
      have "name = ''messages_unacknowledged'' \<longrightarrow> MessagesUnack qt = MessagesUnack (QueueTotals ov)"
        using decodeQueueTotals_unack_missing [OF qt] none by blast
      ultimately show ?thesis
        using Cons.IH [OF dec rest] by simp
    qed (use Cons.prems(1) m True in simp_all)
  qed
qed

lemma decodeOverview_totals_missing:
  "\<forall>(k, v) \<in> set ms. \<not> fieldMatches ''queue_totals'' k \<Longrightarrow> decodeOverview ms ov = Inr ov"
  by (induction ms) auto

lemma object_body_defaults:
  assumes "Unmarshal (Some (JObject ms)) zeroOverview = Inr over"
  shows "\<exists>ov. over = Some ov \<and>
     ((\<forall>(k, v) \<in> set ms. fieldMatches ''queue_totals'' k \<longrightarrow>
         (\<forall>fs. v = JObject fs \<longrightarrow> (\<forall>(k', v') \<in> set fs. \<not> fieldMatches ''messages_ready'' k')))
        \<longrightarrow> MessagesReady (QueueTotals ov) = 0) \<and>
     ((\<forall>(k, v) \<in> set ms. fieldMatches ''queue_totals'' k \<longrightarrow>
         (\<forall>fs. v = JObject fs \<longrightarrow>
            (\<forall>(k', v') \<in> set fs. \<not> fieldMatches ''messages_unacknowledged'' k')))
        \<longrightarrow> MessagesUnack (QueueTotals ov) = 0)"
proof -
  from assms obtain ov where dec: "decodeOverview ms zeroOverview = Inr ov" and over: "over = Some ov"
    by (auto simp: Unmarshal_def split: sum.splits)
  show ?thesis
    using decodeOverview_field_missing [OF dec, of "''messages_ready''"]
      decodeOverview_field_missing [OF dec, of "''messages_unacknowledged''"] over
    by (simp add: zeroOverview_def)
qed

lemma empty_object_body: "Unmarshal (Some (JObject [])) zeroOverview = Inr (Some (snapshot 0 0))"
  by (simp add: Unmarshal_def zeroOverview_def snapshot_def)

subsection \<open>The body null\<close>

text \<open>
  C8 holds for bodies that are objects (\<open>object_body_defaults\<close>, \<open>empty_object_body\<close>),
  but not for every body that decodes: line 91 passes \<open>&over\<close>, a pointer to the pointer,
  and encoding/json sets a pointer to nil on the literal \<open>null\<close>. \<open>processHost\<close> then
  returns a nil \<open>Overview\<close> without error, and \<open>processOverview\<close> dereferences it at
  line 103: the run panics after the request, with no line printed and nothing logged.
\<close>

theorem null_body_nil_pointer:
  "Unmarshal (Some JNull) zeroOverview = Inr None \<and>
   main (scriptedNetwork [Body (Some JNull)]) (Inr defaultOptions) emptyWorld =
     (Panicked NilDereference,
      \<lparr>stdout = [], logged = [],
       requests = [\<lparr>uri = ''http://localhost:15672/api/overview'',
                    auth_user = ''guest'', auth_password = ''guest''\<rparr>]\<rparr>)"
proof -
  have null: "Unmarshal (Some JNull) zeroOverview = Inr None"
    by (simp add: Unmarshal_def)
  have warn: "limitMap (Warning defaultOptions) emptyWorld = (Inr [10000, 10000], emptyWorld)"
    and crit: "limitMap (Critical defaultOptions) emptyWorld = (Inr [50000, 50000], emptyWorld)"
    by (simp_all add: defaultOptions_def limitMap_def Split.simps Atoi_def ParseInt_def
        ParseUint_def digit_val_def maxUint64_def)
  have hosts: "Split (Host defaultOptions) CHR '','' = [''localhost'']"
    by (simp add: defaultOptions_def Split.simps)
  have fetch: "processHost (scriptedNetwork [Body (Some JNull)]) defaultOptions ''localhost''
      emptyWorld =
      (Inr None, emptyWorld\<lparr>requests := [\<lparr>uri = ''http://localhost:15672/api/overview'',
                    auth_user = ''guest'', auth_password = ''guest''\<rparr>]\<rparr>)"
    by (simp add: processHost_def scriptedNetwork_def defaultOptions_def emptyWorld_def null)
  have "main (scriptedNetwork [Body (Some JNull)]) (Inr defaultOptions) emptyWorld =
     (Panicked NilDereference,
      \<lparr>stdout = [], logged = [],
       requests = [\<lparr>uri = ''http://localhost:15672/api/overview'',
                    auth_user = ''guest'', auth_password = ''guest''\<rparr>]\<rparr>)"
    by (simp add: main_def warn crit hosts fetch processOverview_def) (simp add: emptyWorld_def)
  with null show ?thesis by simp
qed

end
